theory Spec2Isabelle
  imports Complex_Main "HOL-Library.Log_Nat" "HOL-Library.AList"
begin

section \<open>Python values and exceptions\<close>

text \<open>
  The embedding covers \<^verbatim>\<open>src/data_analyzer.py\<close>, class \<^verbatim>\<open>DataAnalyzer\<close>, on
  datasets of Python integers (unbounded, type \<^typ>\<open>int\<close>), the element type of the
  repository's own sample data.  A Python \<^verbatim>\<open>float\<close> is represented by the exact rational
  value of the IEEE binary64 number it holds; the only floats the class produces on integer
  data come from the true division \<^verbatim>\<open>/\<close> of two integers, which never yields an infinity
  or a NaN (it raises instead).
\<close>

datatype py_error = ZeroDivisionError | OverflowError | IndexError

text \<open>Values stored in the statistics dictionary.\<close>

datatype pyval = PyInt int | PyFloat rat | PyNone

text \<open>Objects a caller can pass to \<^verbatim>\<open>add_data\<close>; only an \<open>ObjList\<close> is an instance of \<^verbatim>\<open>list\<close>.\<close>

datatype pyobj =
    ObjInt int
  | ObjNone
  | ObjStr string
  | ObjTuple "int list"
  | ObjRange int int
  | ObjList "int list"

fun isinstance_list :: "pyobj \<Rightarrow> bool" where
  "isinstance_list (ObjList xs) = True"
| "isinstance_list other = False"

text \<open>The objects that are sequences in Python's sense (\<^verbatim>\<open>collections.abc.Sequence\<close>).\<close>

fun is_sequence :: "pyobj \<Rightarrow> bool" where
  "is_sequence (ObjList xs) = True"
| "is_sequence (ObjTuple xs) = True"
| "is_sequence (ObjRange a b) = True"
| "is_sequence (ObjStr cs) = True"
| "is_sequence other = False"


section \<open>True division of integers\<close>

text \<open>
  \<^verbatim>\<open>a / b\<close> on two Python integers is the quotient correctly rounded to binary64
  (round half to even, 53 significant bits, least exponent \<open>-1022\<close>);
  it raises \<^verbatim>\<open>ZeroDivisionError\<close> when \<open>b = 0\<close> and \<^verbatim>\<open>OverflowError\<close> when the rounded
  quotient does not fit a float.
\<close>

definition floor_log2_quot :: "int \<Rightarrow> int \<Rightarrow> int" where
  \<comment> \<open>for \<open>a > 0\<close> and \<open>b > 0\<close>: the \<open>e\<close> with \<open>2^e \<le> a / b < 2^(e+1)\<close>\<close>
  "floor_log2_quot a b =
     (let d = bitlen a - bitlen b
      in if (if 0 \<le> d then b * 2 ^ nat d \<le> a else b \<le> a * 2 ^ nat (- d)) then d else d - 1)"

definition round_half_even :: "int \<Rightarrow> int \<Rightarrow> int" where
  \<comment> \<open>for \<open>n \<ge> 0\<close> and \<open>d > 0\<close>: \<open>n / d\<close> rounded to the nearest integer, ties to even\<close>
  "round_half_even n d =
     (let q = n div d; r = n mod d
      in if 2 * r < d then q else if d < 2 * r then q + 1 else if even q then q else q + 1)"

definition pow2 :: "int \<Rightarrow> rat" where
  "pow2 k = (if 0 \<le> k then 2 ^ nat k else 1 / 2 ^ nat (- k))"

definition int_truediv :: "int \<Rightarrow> int \<Rightarrow> py_error + rat" where
  "int_truediv a b =
     (if b = 0 then Inl ZeroDivisionError
      else if a = 0 then Inr 0
      else
        let e = max (floor_log2_quot \<bar>a\<bar> \<bar>b\<bar>) (- 1022);
            sh = e - 52;
            m = (if 0 \<le> sh then round_half_even \<bar>a\<bar> (\<bar>b\<bar> * 2 ^ nat sh)
                 else round_half_even (\<bar>a\<bar> * 2 ^ nat (- sh)) \<bar>b\<bar>);
            v = of_int m * pow2 sh
        in if 2 ^ 1024 \<le> v then Inl OverflowError
           else Inr (of_int (sgn a * sgn b) * v))"

text \<open>List indexing \<^verbatim>\<open>xs[i]\<close>: a negative index counts from the end, an index out of range
  raises \<^verbatim>\<open>IndexError\<close>.\<close>

definition py_getitem :: "'a list \<Rightarrow> int \<Rightarrow> py_error + 'a" where
  "py_getitem xs i =
     (if i < - int (length xs) \<or> int (length xs) \<le> i then Inl IndexError
      else if i < 0 then Inr (xs ! nat (int (length xs) + i))
      else Inr (xs ! nat i))"

section \<open>The class \<^verbatim>\<open>DataAnalyzer\<close>\<close>

text \<open>
  The attributes of an instance.  \<open>stats\<close> is the attribute \<^verbatim>\<open>_stats\<close>: \<open>None\<close> for
  Python's \<^verbatim>\<open>None\<close>, otherwise the dictionary, as the list of its items in insertion order.
\<close>

record DataAnalyzer =
  data :: "int list"
  name :: string
  processed :: bool
  stats :: "(string \<times> pyval) list option"

definition default_name :: string where
  "default_name = ''Default Dataset''"

definition init :: "int list \<Rightarrow> string \<Rightarrow> DataAnalyzer" where
  "init d nm = \<lparr> data = d, name = nm, processed = False, stats = None \<rparr>"

text \<open>The constructor called without a name.\<close>

definition init_default :: "int list \<Rightarrow> DataAnalyzer" where
  "init_default d = init d default_name"

text \<open>
  Every method returns what the call does: its result (\<open>Inr\<close> the returned value, \<open>Inl\<close> the
  exception that leaves the method), the lines it prints, and the instance afterwards.
\<close>

definition median_of :: "int list \<Rightarrow> py_error + pyval" where
  \<comment> \<open>lines 42 to 46, on \<open>sorted_data\<close>\<close>
  "median_of sorted_data =
     (let n = int (length sorted_data)
      in if n mod 2 = 0 then
           (case py_getitem sorted_data (n div 2 - 1) of
              Inl e \<Rightarrow> Inl e
            | Inr a \<Rightarrow>
               (case py_getitem sorted_data (n div 2) of
                  Inl e \<Rightarrow> Inl e
                | Inr b \<Rightarrow> map_sum id PyFloat (int_truediv (a + b) 2)))
         else map_sum id PyInt (py_getitem sorted_data (n div 2)))"

definition basic_stats :: "int list \<Rightarrow> py_error + (string \<times> pyval) list" where
  \<comment> \<open>the dictionary display of lines 32 to 38; only the division can raise\<close>
  "basic_stats xs =
     (case (if xs \<noteq> [] then map_sum id PyFloat (int_truediv (sum_list xs) (int (length xs)))
            else Inr PyNone) of
        Inl e \<Rightarrow> Inl e
      | Inr mean_v \<Rightarrow>
          Inr [(''count'', PyInt (int (length xs))),
               (''sum'', PyInt (sum_list xs)),
               (''mean'', mean_v),
               (''min'', if xs \<noteq> [] then PyInt (Min (set xs)) else PyNone),
               (''max'', if xs \<noteq> [] then PyInt (Max (set xs)) else PyNone)])"

definition process :: "DataAnalyzer \<Rightarrow> (py_error + bool) \<times> string list \<times> DataAnalyzer" where
  "process s =
     (if data s = [] then (Inr False, [''No data to process''], s)
      else
        case basic_stats (data s) of
          Inl e \<Rightarrow> (Inl e, [], s)
        | Inr d \<Rightarrow>
            (let s1 = s\<lparr>stats := Some d\<rparr>
             in (case median_of (sort (data s)) of
                   Inl e \<Rightarrow> (Inl e, [], s1)
                 | Inr med \<Rightarrow>
                     (Inr True, [],
                      s1\<lparr>stats := Some (AList.update ''median'' med d), processed := True\<rparr>))))"

definition get_statistics :: "DataAnalyzer \<Rightarrow> (string \<times> pyval) list option \<times> string list" where
  \<comment> \<open>reads the instance only\<close>
  "get_statistics s =
     (if \<not> processed s
      then (None, [''Data has not been processed yet. Call process() first.''])
      else (stats s, []))"

text \<open>The items of a list object, read by \<^verbatim>\<open>extend\<close>.\<close>

fun list_items :: "pyobj \<Rightarrow> int list" where
  "list_items (ObjList xs) = xs"
| "list_items other = []"

definition add_data :: "DataAnalyzer \<Rightarrow> pyobj \<Rightarrow> (py_error + bool) \<times> string list \<times> DataAnalyzer" where
  "add_data s new_data =
     (if \<not> isinstance_list new_data then (Inr False, [''New data must be a list''], s)
      else (Inr True, [], s\<lparr>data := data s @ list_items new_data, processed := False\<rparr>))"

section \<open>Sequences of calls\<close>

text \<open>
  A caller holds one instance and calls its methods one after the other; a call that raises
  leaves the instance as the method left it.  The reachable instances are those a
  constructor call followed by any number of method calls produces.
\<close>

datatype call = Process | GetStatistics | AddData pyobj

fun exec :: "call \<Rightarrow> DataAnalyzer \<Rightarrow> DataAnalyzer" where
  "exec Process s = snd (snd (process s))"
| "exec GetStatistics s = s"
| "exec (AddData x) s = snd (snd (add_data s x))"

fun run :: "call list \<Rightarrow> DataAnalyzer \<Rightarrow> DataAnalyzer" where
  "run [] s = s"
| "run (c # cs) s = run cs (exec c s)"

inductive reachable :: "DataAnalyzer \<Rightarrow> bool" where
  reachable_init: "reachable (init d nm)"
| reachable_exec: "reachable s \<Longrightarrow> reachable (exec c s)"

text \<open>
  The stored snapshot is the one \<^verbatim>\<open>process\<close> computes from the current data: the
  invariant behind the \<^verbatim>\<open>processed\<close> flag.
\<close>

definition computed_from_data :: "DataAnalyzer \<Rightarrow> bool" where
  "computed_from_data s \<longleftrightarrow>
     (\<exists>d med. data s \<noteq> [] \<and> basic_stats (data s) = Inr d
        \<and> median_of (sort (data s)) = Inr med
        \<and> stats s = Some (AList.update ''median'' med d))"

section \<open>Facts about the true division\<close>

lemma pow2_add: "pow2 (i + j) = pow2 i * pow2 j"
proof -
  have "pow2 k = 2 powi k" for k
    by (simp add: pow2_def power_int_def inverse_eq_divide power_one_over)
  then show ?thesis by (simp add: power_int_add)
qed

lemma pow2_pos: "0 < pow2 k"
  by (simp add: pow2_def)

lemma pow2_nat: "pow2 (int n) = 2 ^ n"
  by (simp add: pow2_def)

lemma pow2_mono: "i \<le> j \<Longrightarrow> pow2 i \<le> pow2 j"
proof -
  assume "i \<le> j"
  then obtain n where "j = i + int n" by (metis zle_iff_zadd)
  then have "pow2 j = pow2 i * 2 ^ n" by (simp add: pow2_add pow2_nat)
  moreover have "(1::rat) \<le> 2 ^ n" by simp
  ultimately show ?thesis using pow2_pos[of i]
    by (metis mult.right_neutral mult_le_cancel_left_pos)
qed

lemma bitlen_pow2_bounds:
  assumes "0 < a"
  shows "pow2 (bitlen a - 1) \<le> of_int a" and "of_int a < pow2 (bitlen a)"
proof -
  from assms have ge: "1 \<le> bitlen a" by (auto simp: bitlen_alt_def)
  from bitlen_bounds[OF assms] have lo: "2 ^ nat (bitlen a - 1) \<le> a" and hi: "a < 2 ^ nat (bitlen a)"
    by auto
  from lo have "rat_of_int (2 ^ nat (bitlen a - 1)) \<le> of_int a" by (rule of_int_le_iff[THEN iffD2])
  then show "pow2 (bitlen a - 1) \<le> of_int a" using ge by (simp add: pow2_def)
  from hi have "rat_of_int a < of_int (2 ^ nat (bitlen a))" by (rule of_int_less_iff[THEN iffD2])
  then show "of_int a < pow2 (bitlen a)" using ge by (simp add: pow2_def)
qed

lemma floor_log2_quot_test:
  "(if 0 \<le> d then b * 2 ^ nat d \<le> a else b \<le> a * 2 ^ nat (- d))
     \<longleftrightarrow> of_int b * pow2 d \<le> rat_of_int a"
proof (cases "0 \<le> d")
  case True
  have "(b * 2 ^ nat d \<le> a) = (rat_of_int (b * 2 ^ nat d) \<le> rat_of_int a)"
    by (simp only: of_int_le_iff)
  then show ?thesis using True by (simp add: pow2_def)
next
  case False
  have "(b \<le> a * 2 ^ nat (- d)) = (rat_of_int b \<le> rat_of_int (a * 2 ^ nat (- d)))"
    by (simp only: of_int_le_iff)
  then show ?thesis using False by (simp add: pow2_def field_simps)
qed

lemma floor_log2_quot_bounds:
  assumes a: "0 < a" and b: "0 < b"
  shows "of_int b * pow2 (floor_log2_quot a b) \<le> rat_of_int a"
    and "rat_of_int a < of_int b * pow2 (floor_log2_quot a b + 1)"
proof -
  define d where "d = bitlen a - bitlen b"
  note A = bitlen_pow2_bounds[OF a] and B = bitlen_pow2_bounds[OF b]
  have e: "floor_log2_quot a b = (if of_int b * pow2 d \<le> rat_of_int a then d else d - 1)"
    unfolding floor_log2_quot_def Let_def d_def[symmetric] floor_log2_quot_test ..
  have up: "rat_of_int a < of_int b * pow2 (d + 1)"
  proof -
    have "pow2 (bitlen a) = pow2 (bitlen b - 1) * pow2 (d + 1)"
      by (simp add: pow2_add[symmetric] d_def)
    also have "\<dots> \<le> of_int b * pow2 (d + 1)"
      using B(1) pow2_pos[of "d + 1"] by (simp add: mult_right_mono)
    finally show ?thesis using A(2) by simp
  qed
  have lo: "of_int b * pow2 (d - 1) \<le> rat_of_int a"
  proof -
    have "of_int b * pow2 (d - 1) \<le> pow2 (bitlen b) * pow2 (d - 1)"
      using B(2) pow2_pos[of "d - 1"] by (simp add: mult_right_mono)
    also have "\<dots> = pow2 (bitlen a - 1)"
      by (simp add: pow2_add[symmetric] d_def)
    finally show ?thesis using A(1) by simp
  qed
  show "of_int b * pow2 (floor_log2_quot a b) \<le> rat_of_int a"
    using lo by (simp add: e)
  show "rat_of_int a < of_int b * pow2 (floor_log2_quot a b + 1)"
    using up by (auto simp add: e)
qed

lemma div_lt_bound: "0 < d \<Longrightarrow> n < d * K \<Longrightarrow> n div d < (K::int)"
proof -
  assume d: "0 < d" and n: "n < d * K"
  have "d * (n div d) + n mod d = n" by (rule mult_div_mod_eq)
  moreover have "0 \<le> n mod d" using d by simp
  ultimately have "d * (n div d) < d * K" using n by linarith
  then show ?thesis using d by (simp add: mult_less_cancel_left_pos)
qed

lemma round_half_even_le:
  assumes "0 < d" "n < d * K"
  shows "round_half_even n d \<le> K"
  using div_lt_bound[OF assms] by (simp add: round_half_even_def Let_def)


lemma pow2_less_imp: "pow2 i < pow2 j \<Longrightarrow> i < j"
  using pow2_mono[of j i] by (cases "i < j") auto

lemma mantissa_le:
  assumes B: "0 < B" and lt: "rat_of_int A < of_int B * pow2 (sh + int p)"
  shows "(if 0 \<le> sh then round_half_even A (B * 2 ^ nat sh)
          else round_half_even (A * 2 ^ nat (- sh)) B) \<le> 2 ^ p"
proof (cases "0 \<le> sh")
  case True
  have "pow2 (sh + int p) = 2 ^ nat sh * 2 ^ p"
    using True by (simp add: pow2_add pow2_nat) (simp add: pow2_def)
  with lt have "rat_of_int A < of_int (B * 2 ^ nat sh * 2 ^ p)"
    by (simp add: mult.assoc)
  then have "A < B * 2 ^ nat sh * 2 ^ p" by (simp only: of_int_less_iff)
  moreover have "0 < B * 2 ^ nat sh" using B by simp
  ultimately have "round_half_even A (B * 2 ^ nat sh) \<le> 2 ^ p"
    by (rule round_half_even_le[rotated])
  then show ?thesis using True by simp
next
  case False
  have "pow2 (sh + int p) = 2 ^ p / 2 ^ nat (- sh)"
    using False by (simp add: pow2_add pow2_nat) (simp add: pow2_def)
  with lt have "rat_of_int A * 2 ^ nat (- sh) < of_int B * 2 ^ p"
    by (simp add: field_simps)
  then have "rat_of_int (A * 2 ^ nat (- sh)) < of_int (B * 2 ^ p)" by simp
  then have "A * 2 ^ nat (- sh) < B * 2 ^ p" by (simp only: of_int_less_iff)
  with B have "round_half_even (A * 2 ^ nat (- sh)) B \<le> 2 ^ p"
    by (rule round_half_even_le)
  then show ?thesis using False by simp
qed

lemma int_truediv_unfold:
  assumes "a \<noteq> 0" "b \<noteq> 0"
    and "e = max (floor_log2_quot \<bar>a\<bar> \<bar>b\<bar>) (- 1022)"
    and "m = (if 0 \<le> e - 52 then round_half_even \<bar>a\<bar> (\<bar>b\<bar> * 2 ^ nat (e - 52))
              else round_half_even (\<bar>a\<bar> * 2 ^ nat (- (e - 52))) \<bar>b\<bar>)"
  shows "int_truediv a b =
    (if 2 ^ 1024 \<le> rat_of_int m * pow2 (e - 52) then Inl OverflowError
     else Inr (of_int (sgn a * sgn b) * (of_int m * pow2 (e - 52))))"
  unfolding int_truediv_def Let_def assms(3,4) using assms(1,2) by simp

lemma int_truediv_ok:
  assumes b: "0 < b" and bound: "\<bar>a\<bar> < b * 2 ^ 1023"
  shows "\<exists>x. int_truediv a b = Inr x"
proof (cases "a = 0")
  case True
  then show ?thesis using b by (simp add: int_truediv_def)
next
  case False
  define A where "A = \<bar>a\<bar>"
  define e where "e = max (floor_log2_quot A b) (- 1022)"
  define m where "m = (if 0 \<le> e - 52 then round_half_even A (b * 2 ^ nat (e - 52))
                 else round_half_even (A * 2 ^ nat (- (e - 52))) b)"
  have A: "0 < A" using False by (simp add: A_def)
  note fl = floor_log2_quot_bounds[OF A b]
  have "rat_of_int A < of_int (b * 2 ^ 1023)"
    using bound unfolding A_def by (simp only: of_int_less_iff)
  then have Alt: "rat_of_int A < of_int b * pow2 1023" by (simp add: pow2_def)
  with fl(1) have "of_int b * pow2 (floor_log2_quot A b) < rat_of_int b * pow2 1023" by simp
  then have "pow2 (floor_log2_quot A b) < pow2 1023" using b by simp
  then have "floor_log2_quot A b < 1023" by (rule pow2_less_imp)
  then have e_le: "e \<le> 1022" by (simp add: e_def)
  have "pow2 (floor_log2_quot A b + 1) \<le> pow2 (e + 1)"
    by (rule pow2_mono) (simp add: e_def)
  then have "rat_of_int b * pow2 (floor_log2_quot A b + 1) \<le> of_int b * pow2 (e + 1)"
    using b by simp
  with fl(2) have "rat_of_int A < of_int b * pow2 (e + 1)" by (rule less_le_trans)
  moreover have "e + 1 = e - 52 + int 53" by simp
  ultimately have "rat_of_int A < of_int b * pow2 (e - 52 + int 53)" by (simp only:)
  from mantissa_le[OF b this] have m_le: "m \<le> 2 ^ 53" by (simp only: m_def)
  then have "rat_of_int m \<le> of_int (2 ^ 53)" by (simp only: of_int_le_iff)
  then have "rat_of_int m * pow2 (e - 52) \<le> 2 ^ 53 * pow2 (e - 52)"
    using pow2_pos[of "e - 52"] by simp
  also have "\<dots> = pow2 (e + 1)"
    using pow2_add[of 53 "e - 52"] pow2_nat[of 53] by (simp add: add.commute)
  also have "\<dots> \<le> pow2 1023" by (rule pow2_mono) (use e_le in simp)
  also have "\<dots> < 2 ^ 1024" by (simp add: pow2_def)
  finally have "\<not> 2 ^ 1024 \<le> rat_of_int m * pow2 (e - 52)" by simp
  moreover have "int_truediv a b =
    (if 2 ^ 1024 \<le> rat_of_int m * pow2 (e - 52) then Inl OverflowError
     else Inr (of_int (sgn a * sgn b) * (of_int m * pow2 (e - 52))))"
    by (rule int_truediv_unfold) (use False b in \<open>simp_all add: e_def m_def A_def\<close>)
  ultimately show ?thesis by (simp only: if_False) blast
qed


section \<open>Facts about \<^verbatim>\<open>process\<close>\<close>

lemma process_empty:
  "data s = [] \<Longrightarrow> process s = (Inr False, [''No data to process''], s)"
  by (simp add: process_def)

lemma process_mean_raises:
  "data s \<noteq> [] \<Longrightarrow> basic_stats (data s) = Inl e \<Longrightarrow> process s = (Inl e, [], s)"
  by (simp add: process_def)

lemma process_median_raises:
  "data s \<noteq> [] \<Longrightarrow> basic_stats (data s) = Inr d \<Longrightarrow> median_of (sort (data s)) = Inl e
   \<Longrightarrow> process s = (Inl e, [], s\<lparr>stats := Some d\<rparr>)"
  by (simp add: process_def)

lemma process_returns:
  "data s \<noteq> [] \<Longrightarrow> basic_stats (data s) = Inr d \<Longrightarrow> median_of (sort (data s)) = Inr med
   \<Longrightarrow> process s
       = (Inr True, [], s\<lparr>stats := Some (AList.update ''median'' med d), processed := True\<rparr>)"
  by (simp add: process_def)

lemma process_data: "data (snd (snd (process s))) = data s"
  by (simp add: process_def Let_def split: sum.splits)

lemma process_name: "name (snd (snd (process s))) = name s"
  by (simp add: process_def Let_def split: sum.splits)

lemma process_twice: "process (snd (snd (process s))) = process s"
proof (cases "data s = []")
  case True
  then show ?thesis by (simp add: process_empty)
next
  case ne: False
  show ?thesis
  proof (cases "basic_stats (data s)")
    case (Inl e)
    with ne show ?thesis by (simp add: process_mean_raises)
  next
    case (Inr d)
    show ?thesis
    proof (cases "median_of (sort (data s))")
      case (Inl e)
      with ne Inr have "process s = (Inl e, [], s\<lparr>stats := Some d\<rparr>)"
        by (simp add: process_median_raises)
      moreover have "process (s\<lparr>stats := Some d\<rparr>) = (Inl e, [], s\<lparr>stats := Some d\<rparr>)"
        using ne Inr Inl process_median_raises[of "s\<lparr>stats := Some d\<rparr>" d e] by simp
      ultimately show ?thesis by simp
    next
      case med: (Inr med)
      let ?t = "s\<lparr>stats := Some (AList.update ''median'' med d), processed := True\<rparr>"
      from ne Inr med have "process s = (Inr True, [], ?t)" by (simp add: process_returns)
      moreover have "process ?t = (Inr True, [], ?t)"
        using ne Inr med process_returns[of ?t d med] by simp
      ultimately show ?thesis by simp
    qed
  qed
qed

lemma computed_from_data_process:
  assumes "computed_from_data s" "processed s"
  shows "process s = (Inr True, [], s)"
proof -
  from assms(1) obtain d med where *: "data s \<noteq> []" "basic_stats (data s) = Inr d"
    "median_of (sort (data s)) = Inr med" "stats s = Some (AList.update ''median'' med d)"
    unfolding computed_from_data_def by blast
  have "s\<lparr>stats := Some (AList.update ''median'' med d), processed := True\<rparr> = s"
    using *(4) assms(2) by simp
  with process_returns[OF *(1-3)] show ?thesis by simp
qed

lemma exec_invariant:
  assumes "processed s \<longrightarrow> computed_from_data s"
  shows "processed (exec c s) \<longrightarrow> computed_from_data (exec c s)"
proof (cases c)
  case Process
  show ?thesis
  proof (cases "data s = []")
    case True
    then show ?thesis using assms Process by (simp add: process_empty)
  next
    case ne: False
    show ?thesis
    proof (cases "basic_stats (data s)")
      case (Inl e)
      with ne assms Process show ?thesis by (simp add: process_mean_raises)
    next
      case (Inr d)
      show ?thesis
      proof (cases "median_of (sort (data s))")
        case (Inl e)
        then have "\<not> computed_from_data s" by (simp add: computed_from_data_def)
        with assms have "\<not> processed s" by blast
        then show ?thesis using ne Inr Inl Process by (simp add: process_median_raises)
      next
        case med: (Inr med)
        with ne Inr Process show ?thesis
          by (simp add: process_returns computed_from_data_def)
      qed
    qed
  qed
next
  case GetStatistics
  then show ?thesis using assms by simp
next
  case (AddData x)
  then show ?thesis using assms by (simp add: add_data_def)
qed

lemma reachable_computed:
  "reachable s \<Longrightarrow> processed s \<longrightarrow> computed_from_data s"
proof (induction rule: reachable.induct)
  case (reachable_init d nm)
  show ?case by (simp add: init_def)
next
  case (reachable_exec s c)
  from reachable_exec.IH show ?case by (rule exec_invariant)
qed

lemma exec_empty_invariant:
  assumes "data s = [] \<longrightarrow> \<not> processed s \<and> stats s = None"
  shows "data (exec c s) = [] \<longrightarrow> \<not> processed (exec c s) \<and> stats (exec c s) = None"
proof (cases c)
  case Process
  show ?thesis
  proof (cases "data s = []")
    case True
    then show ?thesis using assms Process by (simp add: process_empty)
  next
    case False
    then show ?thesis using Process by (simp add: process_data)
  qed
next
  case GetStatistics
  then show ?thesis using assms by simp
next
  case (AddData x)
  then show ?thesis using assms by (simp add: add_data_def)
qed

lemma reachable_empty:
  "reachable s \<Longrightarrow> data s = [] \<longrightarrow> \<not> processed s \<and> stats s = None"
proof (induction rule: reachable.induct)
  case (reachable_init d nm)
  show ?case by (simp add: init_def)
next
  case (reachable_exec s c)
  from reachable_exec.IH show ?case by (rule exec_empty_invariant)
qed


lemma run_without_process:
  "Process \<notin> set cs \<Longrightarrow> \<not> processed s \<Longrightarrow> \<not> processed (run cs s)"
proof (induction cs arbitrary: s)
  case Nil
  then show ?case by simp
next
  case (Cons c cs)
  from Cons.prems have "\<not> processed (exec c s)"
    by (cases c) (simp_all add: add_data_def)
  with Cons show ?case by simp
qed

section \<open>Statistics of bounded data\<close>

lemma sum_list_abs_bound:
  "\<forall>x\<in>set xs. \<bar>x\<bar> \<le> (B::int) \<Longrightarrow> \<bar>sum_list xs\<bar> \<le> int (length xs) * B"
proof (induction xs)
  case Nil
  show ?case by simp
next
  case (Cons x xs)
  then have "\<bar>x\<bar> \<le> B" and "\<bar>sum_list xs\<bar> \<le> int (length xs) * B" by simp_all
  then show ?case by (simp add: algebra_simps)
qed

lemma mean_defined:
  assumes "xs \<noteq> []" and "\<forall>x\<in>set xs. \<bar>x\<bar> < 2 ^ 1023"
  shows "\<exists>m. int_truediv (sum_list xs) (int (length xs)) = Inr m"
proof (rule int_truediv_ok)
  show len: "0 < int (length xs)" using assms(1) by simp
  from assms(2) have "\<forall>x\<in>set xs. \<bar>x\<bar> \<le> 2 ^ 1023 - 1" by auto
  then have "\<bar>sum_list xs\<bar> \<le> int (length xs) * (2 ^ 1023 - 1)" by (rule sum_list_abs_bound)
  also have "\<dots> < int (length xs) * 2 ^ 1023" using len by simp
  finally show "\<bar>sum_list xs\<bar> < int (length xs) * 2 ^ 1023" .
qed

lemma basic_stats_defined:
  assumes "xs \<noteq> []" and "\<forall>x\<in>set xs. \<bar>x\<bar> < 2 ^ 1023"
  shows "\<exists>m. basic_stats xs =
           Inr [(''count'', PyInt (int (length xs))), (''sum'', PyInt (sum_list xs)),
                (''mean'', PyFloat m), (''min'', PyInt (Min (set xs))),
                (''max'', PyInt (Max (set xs)))]"
proof -
  from mean_defined[OF assms] obtain m
    where "int_truediv (sum_list xs) (int (length xs)) = Inr m" ..
  then show ?thesis using assms(1) by (simp add: basic_stats_def)
qed

lemma abs_add_less: "\<bar>a\<bar> < K \<Longrightarrow> \<bar>b\<bar> < K \<Longrightarrow> \<bar>a + b\<bar> < 2 * (K::int)"
  by linarith

lemma py_getitem_nat: "i < length xs \<Longrightarrow> py_getitem xs (int i) = Inr (xs ! i)"
  by (simp add: py_getitem_def)

lemma median_of_odd:
  assumes "odd (length sd)"
  shows "median_of sd = Inr (PyInt (sd ! (length sd div 2)))"
proof -
  have m: "int (length sd) mod 2 \<noteq> 0" using assms by presburger
  have "length sd div 2 < length sd" using assms by (cases "length sd") auto
  then have "py_getitem sd (int (length sd div 2)) = Inr (sd ! (length sd div 2))"
    by (rule py_getitem_nat)
  then have "py_getitem sd (int (length sd) div 2) = Inr (sd ! (length sd div 2))"
    by (simp add: zdiv_int)
  then show ?thesis using m by (simp add: median_of_def Let_def)
qed

lemma median_of_even:
  assumes "even (length sd)" and "sd \<noteq> []"
  shows "median_of sd =
           map_sum id PyFloat (int_truediv (sd ! (length sd div 2 - 1) + sd ! (length sd div 2)) 2)"
proof -
  have m: "int (length sd) mod 2 = 0" using assms(1) by presburger
  from assms have "length sd \<noteq> 0" and "length sd \<noteq> 1" by auto
  then have two: "2 \<le> length sd" by arith
  then have hi: "length sd div 2 < length sd" and lo: "length sd div 2 - 1 < length sd"
    by simp_all
  from two have "1 \<le> length sd div 2" by simp
  then have "int (length sd) div 2 - 1 = int (length sd div 2 - 1)"
    by (simp add: zdiv_int)
  with py_getitem_nat[OF lo]
  have a: "py_getitem sd (int (length sd) div 2 - 1) = Inr (sd ! (length sd div 2 - 1))"
    by simp
  from py_getitem_nat[OF hi]
  have b: "py_getitem sd (int (length sd) div 2) = Inr (sd ! (length sd div 2))"
    by (simp add: zdiv_int)
  show ?thesis using m by (simp add: median_of_def Let_def a b)
qed

lemma sort_not_Nil: "xs \<noteq> [] \<Longrightarrow> sort xs \<noteq> []"
  by (metis length_sort length_0_conv)

lemma sorted_middle_in_set:
  assumes "xs \<noteq> []"
  shows "sort xs ! (length xs div 2) \<in> set xs"
    and "even (length xs) \<Longrightarrow> sort xs ! (length xs div 2 - 1) \<in> set xs"
proof -
  from assms have "length xs div 2 < length (sort xs)" by simp
  then have "sort xs ! (length xs div 2) \<in> set (sort xs)" by (rule nth_mem)
  then show "sort xs ! (length xs div 2) \<in> set xs" by simp
  from assms have "length xs div 2 - 1 < length (sort xs)" by (cases xs) auto
  then have "sort xs ! (length xs div 2 - 1) \<in> set (sort xs)" by (rule nth_mem)
  then show "sort xs ! (length xs div 2 - 1) \<in> set xs" by simp
qed

lemma median_defined:
  assumes ne: "xs \<noteq> []" and bound: "\<forall>x\<in>set xs. \<bar>x\<bar> < 2 ^ 1023"
  shows "\<exists>med. median_of (sort xs) = Inr med"
proof (cases "even (length xs)")
  case False
  then show ?thesis using median_of_odd[of "sort xs"] by simp
next
  case True
  let ?a = "sort xs ! (length xs div 2 - 1)" and ?b = "sort xs ! (length xs div 2)"
  from sorted_middle_in_set[OF ne] True bound have "\<bar>?a\<bar> < 2 ^ 1023" "\<bar>?b\<bar> < 2 ^ 1023"
    by blast+
  then have "\<bar>?a + ?b\<bar> < 2 * 2 ^ 1023" by (rule abs_add_less)
  then have "\<exists>x. int_truediv (?a + ?b) 2 = Inr x" by (intro int_truediv_ok) simp
  then obtain x where "int_truediv (?a + ?b) 2 = Inr x" ..
  then show ?thesis using median_of_even[of "sort xs"] True sort_not_Nil[OF ne] by simp
qed


section \<open>Concrete runs\<close>

lemma process_odd_sample:
  "process (init [1, 2, 9] ''d'') =
     (Inr True, [],
      \<lparr>data = [1, 2, 9], name = ''d'', processed = True,
       stats = Some [(''count'', PyInt 3), (''sum'', PyInt 12), (''mean'', PyFloat 4),
                     (''min'', PyInt 1), (''max'', PyInt 9), (''median'', PyInt 2)]\<rparr>)"
  by code_simp

lemma process_huge:
  "process (init [2 ^ 1024] ''d'') = (Inl OverflowError, [], init [2 ^ 1024] ''d'')"
  by code_simp




text \<open>
  When the mean fits a float and the median does not, \<^verbatim>\<open>process\<close> raises after it
  has stored the dictionary without the median.
\<close>

lemma process_median_overflow:
  "process (init [- 3 * 2 ^ 1024, 2 ^ 1024, 2 ^ 1024, 2 ^ 1024] ''d'') =
     (Inl OverflowError, [],
      \<lparr>data = [- 3 * 2 ^ 1024, 2 ^ 1024, 2 ^ 1024, 2 ^ 1024], name = ''d'', processed = False,
       stats = Some [(''count'', PyInt 4), (''sum'', PyInt 0), (''mean'', PyFloat 0),
                     (''min'', PyInt (- 3 * 2 ^ 1024)), (''max'', PyInt (2 ^ 1024))]\<rparr>)"
  by code_simp

section \<open>Adding data\<close>



text \<open>
  Claim C6.  For every argument that is not a sequence, such as the integer 42,
  \<^verbatim>\<open>add_data\<close> returns \<^verbatim>\<open>False\<close>, prints its diagnostic, and leaves every attribute of
  the instance as it was.
\<close>

theorem add_data_rejects_non_sequence:
  "\<not> is_sequence x \<Longrightarrow> add_data s x = (Inr False, [''New data must be a list''], s)"
  by (cases x) (simp_all add: add_data_def)

theorem add_data_rejects_non_sequence_witness:
  "\<not> is_sequence (ObjInt 42)
   \<and> add_data (init [1, 2] ''d'') (ObjInt 42)
       = (Inr False, [''New data must be a list''], init [1, 2] ''d'')"
  using add_data_rejects_non_sequence [of "ObjInt 42" "init [1, 2] ''d''"] by simp

text \<open>
  Claim C10.  \<^verbatim>\<open>add_data\<close> accepts list objects only: every argument that is not an
  instance of \<^verbatim>\<open>list\<close> is refused with the diagnostic and the instance is unchanged, and
  tuples and ranges, although sequences, are such arguments.
\<close>

theorem add_data_rejects_non_list:
  "(\<not> isinstance_list x \<longrightarrow> add_data s x = (Inr False, [''New data must be a list''], s))
   \<and> is_sequence (ObjTuple xs) \<and> \<not> isinstance_list (ObjTuple xs)
   \<and> is_sequence (ObjRange a b) \<and> \<not> isinstance_list (ObjRange a b)"
  by (simp add: add_data_def)

theorem add_data_rejects_non_list_witness:
  "\<not> isinstance_list (ObjTuple [3, 4])
   \<and> add_data (init [1, 2] ''d'') (ObjTuple [3, 4])
       = (Inr False, [''New data must be a list''], init [1, 2] ''d'')"
  using add_data_rejects_non_list [of "ObjTuple [3, 4]" "init [1, 2] ''d''"] by simp

section \<open>The \<^verbatim>\<open>processed\<close> flag and the stored snapshot\<close>




section \<open>When \<^verbatim>\<open>process\<close> succeeds\<close>

lemma process_bounded:
  assumes ne: "data s \<noteq> []" and bound: "\<forall>x\<in>set (data s). \<bar>x\<bar> < 2 ^ 1023"
  shows "\<exists>m med. median_of (sort (data s)) = Inr med \<and>
    process s = (Inr True, [],
      s\<lparr>stats := Some [(''count'', PyInt (int (length (data s)))),
                        (''sum'', PyInt (sum_list (data s))),
                        (''mean'', PyFloat m), (''min'', PyInt (Min (set (data s)))),
                        (''max'', PyInt (Max (set (data s)))), (''median'', med)],
        processed := True\<rparr>)"
proof -
  from basic_stats_defined[OF ne bound] obtain m where
    b: "basic_stats (data s) =
           Inr [(''count'', PyInt (int (length (data s)))), (''sum'', PyInt (sum_list (data s))),
                (''mean'', PyFloat m), (''min'', PyInt (Min (set (data s)))),
                (''max'', PyInt (Max (set (data s))))]" ..
  from median_defined[OF ne bound] obtain med where
    m: "median_of (sort (data s)) = Inr med" ..
  have "process s = (Inr True, [],
      s\<lparr>stats := Some [(''count'', PyInt (int (length (data s)))),
                        (''sum'', PyInt (sum_list (data s))),
                        (''mean'', PyFloat m), (''min'', PyInt (Min (set (data s)))),
                        (''max'', PyInt (Max (set (data s)))), (''median'', med)],
        processed := True\<rparr>)"
    using process_returns[OF ne b m] by simp
  with m show ?thesis by blast
qed


lemma process_fails_iff: "fst (process s) = Inr False \<longleftrightarrow> data s = []"
  by (simp add: process_def Let_def split: sum.splits)

text \<open>
  Claim C2, as the code has it.  On a non-empty dataset of integers of magnitude below
  \<open>2^1023\<close>, \<^verbatim>\<open>process\<close> returns \<^verbatim>\<open>True\<close>, sets \<^verbatim>\<open>processed\<close> and stores a snapshot
  whose count is the length of the data.  On an empty dataset it returns \<^verbatim>\<open>False\<close>,
  prints the diagnostic and leaves the instance unchanged, so that (the instance being
  reachable) \<^verbatim>\<open>processed\<close> is false and no snapshot is stored.  \<^verbatim>\<open>False\<close> is returned
  for the empty dataset only.
\<close>

theorem process_outcome:
  "(data s \<noteq> [] \<and> (\<forall>x\<in>set (data s). \<bar>x\<bar> < 2 ^ 1023) \<longrightarrow>
      (\<exists>d. process s = (Inr True, [], s\<lparr>stats := Some d, processed := True\<rparr>)
         \<and> map_of d ''count'' = Some (PyInt (int (length (data s))))))
   \<and> (data s = [] \<longrightarrow> process s = (Inr False, [''No data to process''], s))
   \<and> (fst (process s) = Inr False \<longleftrightarrow> data s = [])
   \<and> (reachable s \<and> data s = [] \<longrightarrow> \<not> processed s \<and> stats s = None)"
proof (intro conjI impI)
  assume "data s \<noteq> [] \<and> (\<forall>x\<in>set (data s). \<bar>x\<bar> < 2 ^ 1023)"
  then obtain m med where
    "process s = (Inr True, [],
      s\<lparr>stats := Some [(''count'', PyInt (int (length (data s)))),
                        (''sum'', PyInt (sum_list (data s))),
                        (''mean'', PyFloat m), (''min'', PyInt (Min (set (data s)))),
                        (''max'', PyInt (Max (set (data s)))), (''median'', med)],
        processed := True\<rparr>)" (is "_ = (_, _, s\<lparr>stats := Some ?d, processed := True\<rparr>)")
    using process_bounded[of s] by blast
  moreover have "map_of ?d ''count'' = Some (PyInt (int (length (data s))))" by simp
  ultimately show "\<exists>d. process s = (Inr True, [], s\<lparr>stats := Some d, processed := True\<rparr>)
         \<and> map_of d ''count'' = Some (PyInt (int (length (data s))))"
    by blast
next
  assume "data s = []"
  then show "process s = (Inr False, [''No data to process''], s)" by (rule process_empty)
next
  show "fst (process s) = Inr False \<longleftrightarrow> data s = []" by (rule process_fails_iff)
next
  assume "reachable s \<and> data s = []"
  then show "\<not> processed s" using reachable_empty[of s] by blast
next
  assume "reachable s \<and> data s = []"
  then show "stats s = None" using reachable_empty[of s] by blast
qed

theorem process_outcome_witness:
  "(\<exists>d. process (init [1, 2, 9] ''d'')
           = (Inr True, [], (init [1, 2, 9] ''d'')\<lparr>stats := Some d, processed := True\<rparr>)
        \<and> map_of d ''count'' = Some (PyInt 3))
   \<and> process (init [] ''d'') = (Inr False, [''No data to process''], init [] ''d'')
   \<and> reachable (init [] ''d'') \<and> \<not> processed (init [] ''d'') \<and> stats (init [] ''d'') = None"
proof -
  have r: "reachable (init [] ''d'')" by (rule reachable_init)
  have b: "\<forall>x\<in>set (data (init [1, 2, 9] ''d'')). \<bar>x\<bar> < 2 ^ 1023" by (simp add: init_def)
  show ?thesis
    using process_outcome [of "init [1, 2, 9] ''d''"] process_outcome [of "init [] ''d''"] r b
    by (simp add: init_def)
qed

text \<open>
  The claim as stated fails: on the one-element dataset \<open>[2^1024]\<close> the mean does not
  fit a float, the division raises \<^verbatim>\<open>OverflowError\<close> and \<^verbatim>\<open>process\<close> returns nothing.
\<close>

theorem process_raises_on_huge_value:
  "data (init [2 ^ 1024] ''d'') \<noteq> []
   \<and> process (init [2 ^ 1024] ''d'') = (Inl OverflowError, [], init [2 ^ 1024] ''d'')"
  using process_huge by (simp add: init_def)

section \<open>The median\<close>





section \<open>Minimum, median and maximum\<close>





section \<open>Reading the statistics\<close>

text \<open>
  Claim C5.  \<^verbatim>\<open>get_statistics\<close> returns \<^verbatim>\<open>None\<close> and prints its diagnostic whenever
  \<^verbatim>\<open>processed\<close> is false, and returns the stored snapshot otherwise.  So it returns
  \<^verbatim>\<open>None\<close> on a new instance and after \<^verbatim>\<open>add_data\<close> with any list, the empty list
  included, and keeps doing so over any calls that do not include \<^verbatim>\<open>process\<close>.  In a
  reachable instance with \<^verbatim>\<open>processed\<close> true the returned snapshot is the one computed
  from the current data.
\<close>

theorem get_statistics_gate:
  "get_statistics s =
     (if processed s then (stats s, [])
      else (None, [''Data has not been processed yet. Call process() first.'']))
   \<and> get_statistics (init d nm)
       = (None, [''Data has not been processed yet. Call process() first.''])
   \<and> get_statistics (exec (AddData (ObjList xs)) s)
       = (None, [''Data has not been processed yet. Call process() first.''])
   \<and> (\<not> processed s \<and> Process \<notin> set cs \<longrightarrow>
        get_statistics (run cs s)
          = (None, [''Data has not been processed yet. Call process() first.'']))
   \<and> (reachable s \<and> processed s \<longrightarrow>
        (\<exists>snapshot. get_statistics s = (Some snapshot, [])
           \<and> process s = (Inr True, [], s\<lparr>stats := Some snapshot\<rparr>)))"
proof (intro conjI impI)
  show "get_statistics s =
     (if processed s then (stats s, [])
      else (None, [''Data has not been processed yet. Call process() first.'']))"
    by (simp add: get_statistics_def)
  show "get_statistics (init d nm)
       = (None, [''Data has not been processed yet. Call process() first.''])"
    by (simp add: get_statistics_def init_def)
  show "get_statistics (exec (AddData (ObjList xs)) s)
       = (None, [''Data has not been processed yet. Call process() first.''])"
    by (simp add: get_statistics_def add_data_def)
next
  assume "\<not> processed s \<and> Process \<notin> set cs"
  then have "\<not> processed (run cs s)" using run_without_process[of cs s] by blast
  then show "get_statistics (run cs s)
          = (None, [''Data has not been processed yet. Call process() first.''])"
    by (simp add: get_statistics_def)
next
  assume a: "reachable s \<and> processed s"
  with reachable_computed[of s] have c: "computed_from_data s" by blast
  then obtain snapshot where st: "stats s = Some snapshot"
    by (auto simp: computed_from_data_def)
  then have "s\<lparr>stats := Some snapshot\<rparr> = s" by simp
  with computed_from_data_process[OF c] a
  have "process s = (Inr True, [], s\<lparr>stats := Some snapshot\<rparr>)" by simp
  moreover have "get_statistics s = (Some snapshot, [])"
    using a st by (simp add: get_statistics_def)
  ultimately show "\<exists>snapshot. get_statistics s = (Some snapshot, [])
           \<and> process s = (Inr True, [], s\<lparr>stats := Some snapshot\<rparr>)"
    by blast
qed

theorem get_statistics_gate_witness:
  "\<not> processed (exec (AddData (ObjList [])) (exec Process (init [1, 2, 9] ''d'')))
   \<and> Process \<notin> set [GetStatistics, AddData (ObjInt 42), AddData (ObjList [4])]
   \<and> get_statistics (run [GetStatistics, AddData (ObjInt 42), AddData (ObjList [4])]
                       (exec (AddData (ObjList [])) (exec Process (init [1, 2, 9] ''d''))))
       = (None, [''Data has not been processed yet. Call process() first.''])
   \<and> reachable (exec Process (init [1, 2, 9] ''d''))
   \<and> processed (exec Process (init [1, 2, 9] ''d''))
   \<and> get_statistics (exec Process (init [1, 2, 9] ''d''))
       = (Some [(''count'', PyInt 3), (''sum'', PyInt 12), (''mean'', PyFloat 4),
                (''min'', PyInt 1), (''max'', PyInt 9), (''median'', PyInt 2)], [])"
proof -
  let ?s = "exec Process (init [1, 2, 9] ''d'')"
  have r: "reachable ?s" by (intro reachable_exec reachable_init)
  have p: "processed ?s" by (simp add: process_odd_sample)
  have n: "\<not> processed (exec (AddData (ObjList [])) ?s)" by (simp add: add_data_def)
  have c: "Process \<notin> set [GetStatistics, AddData (ObjInt 42), AddData (ObjList [4])]" by simp
  have st: "stats ?s = Some [(''count'', PyInt 3), (''sum'', PyInt 12), (''mean'', PyFloat 4),
                (''min'', PyInt 1), (''max'', PyInt 9), (''median'', PyInt 2)]"
    by (simp add: process_odd_sample)
  from get_statistics_gate
         [of "exec (AddData (ObjList [])) ?s" "[]" "''d''" "[]"
             "[GetStatistics, AddData (ObjInt 42), AddData (ObjList [4])]"] n c
  have one: "get_statistics (run [GetStatistics, AddData (ObjInt 42), AddData (ObjList [4])]
                       (exec (AddData (ObjList [])) ?s))
       = (None, [''Data has not been processed yet. Call process() first.''])"
    by blast
  from get_statistics_gate [of ?s "[]" "''d''" "[]" "[]"] r p st
  have two: "get_statistics ?s
       = (Some [(''count'', PyInt 3), (''sum'', PyInt 12), (''mean'', PyFloat 4),
                (''min'', PyInt 1), (''max'', PyInt 9), (''median'', PyInt 2)], [])"
    by simp
  from n c one r p two show ?thesis by blast
qed

section \<open>Processing twice, and what processing leaves alone\<close>

text \<open>
  Claim C8.  Calling \<^verbatim>\<open>process\<close> again on the instance a first call left, with no
  \<^verbatim>\<open>add_data\<close> in between, returns the same result, prints the same and leaves the same
  instance, hence the same stored snapshot.
\<close>

theorem process_idempotent:
  "process (exec Process s) = (fst (process s), fst (snd (process s)), exec Process s)
   \<and> exec Process (exec Process s) = exec Process s
   \<and> stats (run [Process, Process] s) = stats (run [Process] s)"
proof -
  have "process (exec Process s) = process s" by (simp add: process_twice)
  then show ?thesis by simp
qed

theorem process_idempotent_witness:
  "process (exec Process (init [1, 2, 9] ''d''))
     = (Inr True, [], exec Process (init [1, 2, 9] ''d''))
   \<and> stats (run [Process, Process] (init [1, 2, 9] ''d''))
       = Some [(''count'', PyInt 3), (''sum'', PyInt 12), (''mean'', PyFloat 4),
               (''min'', PyInt 1), (''max'', PyInt 9), (''median'', PyInt 2)]"
  using process_idempotent [of "init [1, 2, 9] ''d''"] by (simp add: process_odd_sample)

text \<open>
  Claim C9.  Whatever \<^verbatim>\<open>process\<close> does (return or raise), the data, in content and
  order, and the name are as before: only \<^verbatim>\<open>processed\<close> and the stored snapshot can
  differ.  Outside the instance it prints the diagnostic when the data is empty and
  nothing otherwise.
\<close>

theorem process_frame:
  "data (exec Process s) = data s
   \<and> name (exec Process s) = name s
   \<and> exec Process s = s\<lparr>processed := processed (exec Process s), stats := stats (exec Process s)\<rparr>
   \<and> fst (snd (process s)) = (if data s = [] then [''No data to process''] else [])"
proof -
  have "fst (snd (process s)) = (if data s = [] then [''No data to process''] else [])"
    by (simp add: process_def Let_def split: sum.splits)
  moreover have "data (exec Process s) = data s" "name (exec Process s) = name s"
    by (simp_all add: process_data process_name)
  ultimately show ?thesis by simp
qed

theorem process_frame_witness:
  "data (exec Process (init [9, 1, 2] ''d'')) = [9, 1, 2]
   \<and> name (exec Process (init [9, 1, 2] ''d'')) = ''d''
   \<and> fst (snd (process (init [9, 1, 2] ''d''))) = []
   \<and> fst (snd (process (init [] ''d''))) = [''No data to process'']"
  using process_frame [of "init [9, 1, 2] ''d''"] process_frame [of "init [] ''d''"]
  by (simp add: init_def)

end
